theory Spec2Isabelle
  imports Complex_Main
begin

section \<open>Record model\<close>

text \<open>
  The two dataclasses of \<^verbatim>\<open>paper_search_classify.py\<close>. A Python \<^verbatim>\<open>str\<close> is represented
  by the bytes of its UTF-8 encoding, which keeps equality of strings and the positions
  of the ASCII characters \<^verbatim>\<open>{\<close> and \<^verbatim>\<open>}\<close>.
\<close>

record Paper =
  title :: string
  abstract :: string
  venue :: string
  paper_id :: "string option"
  authors :: "string list option"
  keywords_field :: "string list option"
  pdf_url :: "string option"
  forum_url :: "string option"

record ClassificationResult =
  category :: string
  papers :: "Paper list"
  summary :: string

text \<open>
  What the engine can raise. \<open>ValueError\<close> is raised by the response parser, with one
  of its two messages; \<open>BackendError\<close> stands for whatever the completion client raised,
  identified by its message.
\<close>

datatype parse_failure = NoJsonContent | JsonDecodeFailed

datatype exc =
    ZeroDivisionError
  | IndexError
  | ValueError parse_failure
  | BackendError string

section \<open>Batch planner\<close>

text \<open>
  Python's \<^verbatim>\<open>xs[start:stop]\<close>: a negative bound counts from the end, and both bounds are
  clipped to \<open>0 .. len(xs)\<close>.
\<close>

definition py_slice :: "'a list \<Rightarrow> int \<Rightarrow> int \<Rightarrow> 'a list" where
  "py_slice xs start stop =
     (let n = int (length xs);
          lo = (if start < 0 then max (start + n) 0 else min start n);
          hi = (if stop < 0 then max (stop + n) 0 else min stop n)
      in drop (nat lo) (take (nat hi) xs))"

text \<open>
  \<^verbatim>\<open>batch_count = (len(papers) + self.batch_size - 1) // self.batch_size\<close>.
  Floor division of Python is \<open>div\<close> on \<open>int\<close>; a zero divisor raises.
\<close>

definition batch_count :: "nat \<Rightarrow> int \<Rightarrow> exc + int" where
  "batch_count n batch_size =
     (if batch_size = 0 then Inl ZeroDivisionError
      else Inr ((int n + batch_size - 1) div batch_size))"

text \<open>The slice taken in iteration \<open>batch_idx\<close> of the loop.\<close>

definition batch_slice :: "'a list \<Rightarrow> int \<Rightarrow> int \<Rightarrow> 'a list" where
  "batch_slice ps batch_size batch_idx =
     (let start_idx = batch_idx * batch_size;
          end_idx = min (start_idx + batch_size) (int (length ps))
      in py_slice ps start_idx end_idx)"

text \<open>
  All slices of a run, in loop order: \<^verbatim>\<open>range(batch_count)\<close> is empty for a count
  below one.
\<close>

definition plan_batches :: "'a list \<Rightarrow> int \<Rightarrow> exc + 'a list list" where
  "plan_batches ps batch_size =
     (case batch_count (length ps) batch_size of
        Inl e \<Rightarrow> Inl e
      | Inr c \<Rightarrow> Inr (map (\<lambda>k. batch_slice ps batch_size (int k)) [0..<nat c]))"

section \<open>Response parser\<close>

text \<open>
  \<^verbatim>\<open>re.search(r'\{[\s\S]*\}', response_text)\<close>: the leftmost match starts at the first
  opening brace, and the greedy star runs to the last closing brace after it. There is
  no match when no closing brace follows the first opening brace.
\<close>

definition extract_json :: "string \<Rightarrow> string option" where
  "extract_json response_text =
     (case dropWhile (\<lambda>c. c \<noteq> CHR ''{'') response_text of
        [] \<Rightarrow> None
      | c # rest \<Rightarrow>
          (case rev (dropWhile (\<lambda>c. c \<noteq> CHR ''}'') (rev rest)) of
             [] \<Rightarrow> None
           | body \<Rightarrow> Some (c # body)))"

text \<open>
  The decoded document, in the shape that the prompt requests and the dataclass
  annotations declare: an object with an optional \<^verbatim>\<open>categories\<close> array of objects, each
  with an optional string \<^verbatim>\<open>name\<close>, boolean \<^verbatim>\<open>is_existing\<close>, integer array
  \<^verbatim>\<open>paper_indices\<close> and string \<^verbatim>\<open>summary\<close>. \<open>None\<close> is an absent key. Python's integers
  are unbounded, hence \<open>int\<close>. Documents of another shape (a number for \<^verbatim>\<open>categories\<close>,
  a fractional index, a name that is not a string) are not covered by this embedding.
\<close>

record category_entry =
  entry_name :: "string option"
  entry_is_existing :: "bool option"
  entry_paper_indices :: "int list option"
  entry_summary :: "string option"

record response_document =
  categories :: "category_entry list option"

text \<open>
  \<^verbatim>\<open>json.loads\<close> belongs to Python's standard library; the development is parametric in
  it. \<open>None\<close> stands for \<^verbatim>\<open>json.JSONDecodeError\<close>.
\<close>

type_synonym json_decoder = "string \<Rightarrow> response_document option"

text \<open>
  \<^verbatim>\<open>papers[idx - 1]\<close>, with Python's indexing: a negative index counts from the end, an
  index out of range raises.
\<close>

definition py_getitem :: "'a list \<Rightarrow> int \<Rightarrow> exc + 'a" where
  "py_getitem xs i =
     (let n = int (length xs); j = (if i < 0 then i + n else i)
      in if 0 \<le> j \<and> j < n then Inr (xs ! nat j) else Inl IndexError)"

text \<open>
  \<^verbatim>\<open>[papers[idx - 1] for idx in paper_indices if 0 < idx <= len(papers)]\<close>
\<close>

fun select_papers :: "'a list \<Rightarrow> int list \<Rightarrow> exc + 'a list" where
  "select_papers ps [] = Inr []"
| "select_papers ps (idx # paper_indices) =
     (if 0 < idx \<and> idx \<le> int (length ps) then
        (case py_getitem ps (idx - 1) of
           Inl e \<Rightarrow> Inl e
         | Inr p \<Rightarrow>
             (case select_papers ps paper_indices of
                Inl e \<Rightarrow> Inl e
              | Inr selected \<Rightarrow> Inr (p # selected)))
      else select_papers ps paper_indices)"

text \<open>The placeholder of \<^verbatim>\<open>cat.get("name", ...)\<close>: five CJK characters, as UTF-8.\<close>

definition default_category_name :: string where
  "default_category_name =
     map char_of [0xE6, 0x9C, 0xAA, 0xE5, 0x91, 0xBD, 0xE5, 0x90, 0x8D,
                  0xE7, 0xB1, 0xBB, 0xE5, 0x88, 0xAB :: nat]"

text \<open>The body of the loop over \<^verbatim>\<open>result_data.get("categories", [])\<close>.\<close>

definition parse_entry :: "Paper list \<Rightarrow> category_entry \<Rightarrow> exc + ClassificationResult" where
  "parse_entry ps cat =
     (let category_name = (case entry_name cat of None \<Rightarrow> default_category_name | Some v \<Rightarrow> v);
          paper_indices = (case entry_paper_indices cat of None \<Rightarrow> [] | Some v \<Rightarrow> v);
          summary_text = (case entry_summary cat of None \<Rightarrow> [] | Some v \<Rightarrow> v);
          is_existing = (case entry_is_existing cat of None \<Rightarrow> False | Some v \<Rightarrow> v)
      in case select_papers ps paper_indices of
           Inl e \<Rightarrow> Inl e
         | Inr category_papers \<Rightarrow>
             Inr \<lparr>category = category_name, papers = category_papers, summary = summary_text\<rparr>)"

fun parse_entries :: "Paper list \<Rightarrow> category_entry list \<Rightarrow> exc + ClassificationResult list" where
  "parse_entries ps [] = Inr []"
| "parse_entries ps (cat # cats) =
     (case parse_entry ps cat of
        Inl e \<Rightarrow> Inl e
      | Inr r \<Rightarrow>
          (case parse_entries ps cats of
             Inl e \<Rightarrow> Inl e
           | Inr results \<Rightarrow> Inr (r # results)))"

text \<open>
  \<^verbatim>\<open>_parse_classification_result\<close>. Its third parameter \<^verbatim>\<open>existing_categories\<close> is never
  read by the source and is left out.
\<close>

definition parse_classification_result ::
  "json_decoder \<Rightarrow> string \<Rightarrow> Paper list \<Rightarrow> exc + ClassificationResult list" where
  "parse_classification_result loads response_text ps =
     (case extract_json response_text of
        None \<Rightarrow> Inl (ValueError NoJsonContent)
      | Some json_match \<Rightarrow>
          (case loads json_match of
             None \<Rightarrow> Inl (ValueError JsonDecodeFailed)
           | Some result_data \<Rightarrow>
               parse_entries ps (case categories result_data of None \<Rightarrow> [] | Some v \<Rightarrow> v)))"

section \<open>Merge engine\<close>

text \<open>
  \<^verbatim>\<open>_merge_results\<close> copies the list it is given but shares the \<^verbatim>\<open>ClassificationResult\<close>
  objects, and it extends their \<^verbatim>\<open>papers\<close> in place. The objects therefore live in a
  store: an object is addressed by its position in the heap, allocation appends, and a
  Python list of objects is a list of addresses. Each object owns its \<^verbatim>\<open>papers\<close> list,
  as the objects built by the parser do.
\<close>

type_synonym ref = nat
type_synonym heap = "ClassificationResult list"

definition alloc :: "heap \<Rightarrow> ClassificationResult list \<Rightarrow> heap \<times> ref list" where
  "alloc h objs = (h @ objs, [length h ..< length h + length objs])"

definition deref :: "heap \<Rightarrow> ref list \<Rightarrow> ClassificationResult list" where
  "deref h refs = map (\<lambda>r. h ! r) refs"

text \<open>The inner loop: the first element of \<^verbatim>\<open>merged\<close> with the wanted name.\<close>

fun find_category :: "heap \<Rightarrow> ref list \<Rightarrow> string \<Rightarrow> ref option" where
  "find_category h [] name = None"
| "find_category h (existing_cat # merged) name =
     (if category (h ! existing_cat) = name then Some existing_cat
      else find_category h merged name)"

fun merge_results :: "heap \<Rightarrow> ref list \<Rightarrow> ref list \<Rightarrow> heap \<times> ref list" where
  "merge_results h merged [] = (h, merged)"
| "merge_results h merged (batch_cat # batch_results) =
     (case find_category h merged (category (h ! batch_cat)) of
        Some existing_cat \<Rightarrow>
          merge_results
            (h[existing_cat := (h ! existing_cat)
                 \<lparr>papers := papers (h ! existing_cat) @ papers (h ! batch_cat)\<rparr>])
            merged batch_results
      | None \<Rightarrow> merge_results h (merged @ [batch_cat]) batch_results)"

section \<open>Batch orchestrator\<close>

text \<open>
  The completion client is an oracle: \<open>client k\<close> is the text returned by the request of
  batch \<open>k\<close>, or the exception it raised.
\<close>

type_synonym completion_client = "nat \<Rightarrow> exc + string"

text \<open>
  A run returns the heap it leaves behind, the number of requests it sent to the client,
  and either the exception it propagates or the final list of categories.
\<close>

type_synonym run_result = "heap \<times> nat \<times> (exc + ref list)"

text \<open>
  The objects of a parsed batch are created by the parser; \<open>merge_parsed\<close> allocates
  them and merges them, as lines 105 and 106 do on success.
\<close>

definition merge_parsed :: "heap \<Rightarrow> ref list \<Rightarrow> ClassificationResult list \<Rightarrow> heap \<times> ref list" where
  "merge_parsed h all_results parsed =
     (case alloc h parsed of (h1, batch_results) \<Rightarrow> merge_results h1 all_results batch_results)"

fun classify_loop ::
  "json_decoder \<Rightarrow> completion_client \<Rightarrow> heap \<Rightarrow> ref list \<Rightarrow> nat \<Rightarrow> Paper list list \<Rightarrow> run_result" where
  "classify_loop loads client h all_results batch_idx [] = (h, batch_idx, Inr all_results)"
| "classify_loop loads client h all_results batch_idx (batch_papers # batches) =
     (case client batch_idx of
        Inl e \<Rightarrow> (h, Suc batch_idx, Inl e)
      | Inr result_text \<Rightarrow>
          (case parse_classification_result loads result_text batch_papers of
             Inl e \<Rightarrow> (h, Suc batch_idx, Inl e)
           | Inr parsed \<Rightarrow>
               (case merge_parsed h all_results parsed of
                  (h', merged) \<Rightarrow> classify_loop loads client h' merged (Suc batch_idx) batches)))"

text \<open>
  \<^verbatim>\<open>classify_papers\<close>. \<open>existing_categories\<close> is \<open>None\<close> for Python's \<^verbatim>\<open>None\<close>. The
  handler of the loop prints the batch number and re-raises the exception it caught.
\<close>

definition classify_papers ::
  "json_decoder \<Rightarrow> completion_client \<Rightarrow> int \<Rightarrow> heap \<Rightarrow> Paper list \<Rightarrow> ref list option \<Rightarrow> run_result" where
  "classify_papers loads client batch_size h ps existing_categories =
     (if ps = [] then (h, 0, Inr [])
      else
        let all_results =
              (case existing_categories of
                 None \<Rightarrow> []
               | Some cs \<Rightarrow> if cs \<noteq> [] then cs else [])
        in case plan_batches ps batch_size of
             Inl e \<Rightarrow> (h, 0, Inl e)
           | Inr batches \<Rightarrow> classify_loop loads client h all_results 0 batches)"

section \<open>The merge algorithm in the words of the specification\<close>

text \<open>
  The specification describes the merge on values, as a left fold over
  \<open>(name, records, summary)\<close> tuples: scan the categories in accumulation order for the
  tuple's name; append the tuple's records to the first category that has it; if none
  has it, append a new category with that name, those members and the tuple's summary
  as description. These definitions follow that wording, to be compared with
  \<open>merge_results\<close>.
\<close>

type_synonym batch_tuple = "string \<times> Paper list \<times> string"

fun merge_tuple_spec :: "ClassificationResult list \<Rightarrow> batch_tuple \<Rightarrow> ClassificationResult list" where
  "merge_tuple_spec [] (name, records, description) =
     [\<lparr>category = name, papers = records, summary = description\<rparr>]"
| "merge_tuple_spec (c # state) (name, records, description) =
     (if category c = name then c\<lparr>papers := papers c @ records\<rparr> # state
      else c # merge_tuple_spec state (name, records, description))"

definition merge_spec :: "ClassificationResult list \<Rightarrow> batch_tuple list \<Rightarrow> ClassificationResult list" where
  "merge_spec state tuples = foldl merge_tuple_spec state tuples"

definition as_tuple :: "ClassificationResult \<Rightarrow> batch_tuple" where
  "as_tuple c = (category c, papers c, summary c)"

section \<open>The extraction step in the words of the specification\<close>

text \<open>
  The specification has the parser locate the first balanced, brace-matched top-level
  object. \<open>balanced_suffix depth cs\<close> reads the text behind an opening brace with
  \<open>depth\<close> further braces open, up to the closing brace that matches it;
  \<open>first_balanced_object\<close> tries each opening brace from the left. These definitions
  follow that wording, to be compared with \<open>extract_json\<close>.
\<close>

fun balanced_suffix :: "nat \<Rightarrow> string \<Rightarrow> string option" where
  "balanced_suffix depth [] = None"
| "balanced_suffix depth (c # cs) =
     (if c = CHR ''{'' then map_option ((#) c) (balanced_suffix (Suc depth) cs)
      else if c = CHR ''}'' then
        (if depth = 0 then Some [c] else map_option ((#) c) (balanced_suffix (depth - 1) cs))
      else map_option ((#) c) (balanced_suffix depth cs))"

fun first_balanced_object :: "string \<Rightarrow> string option" where
  "first_balanced_object [] = None"
| "first_balanced_object (c # cs) =
     (if c = CHR ''{'' then
        (case balanced_suffix 0 cs of
           Some body \<Rightarrow> Some (c # body)
         | None \<Rightarrow> first_balanced_object cs)
      else first_balanced_object cs)"

section \<open>Notions used to state the properties of a run\<close>

text \<open>
  What the \<^verbatim>\<open>try\<close> block of batch \<open>k\<close> raises, if anything: the exception of the client,
  or else that of the parser. The parser reads the completion text and the batch only,
  never the accumulated state, so this does not depend on earlier batches.
\<close>

definition batch_failure ::
  "json_decoder \<Rightarrow> completion_client \<Rightarrow> Paper list list \<Rightarrow> nat \<Rightarrow> exc option" where
  "batch_failure loads client batches k =
     (case client k of
        Inl e \<Rightarrow> Some e
      | Inr result_text \<Rightarrow>
          (case parse_classification_result loads result_text (batches ! k) of
             Inl e \<Rightarrow> Some e
           | Inr parsed \<Rightarrow> None))"






section \<open>Sample data\<close>

definition paper1 :: Paper where
  "paper1 = \<lparr>title = ''P1'', abstract = ''first abstract'', venue = ''ICLR'',
     paper_id = None, authors = None, keywords_field = None, pdf_url = None, forum_url = None\<rparr>"

definition paper2 :: Paper where
  "paper2 = \<lparr>title = ''P2'', abstract = ''second abstract'', venue = ''AAAI'',
     paper_id = None, authors = None, keywords_field = None, pdf_url = None, forum_url = None\<rparr>"

definition paper3 :: Paper where
  "paper3 = \<lparr>title = ''P3'', abstract = ''third abstract'', venue = ''NeurIPS'',
     paper_id = None, authors = None, keywords_field = None, pdf_url = None, forum_url = None\<rparr>"

text \<open>
  Completion texts. \<open>reply_A flag\<close> is
  \<^verbatim>\<open>{"categories": [{"name": "A", "is_existing": true, "paper_indices": [1]}]}\<close>
  (with \<^verbatim>\<open>false\<close> for \<open>flag = False\<close>), and \<open>reply_A_B\<close> is
  \<^verbatim>\<open>{"categories": [{"name": "A", "paper_indices": [1]}, {"name": "B", "paper_indices": [1]}]}\<close>.
\<close>

definition quoted :: "string \<Rightarrow> string" where
  "quoted s = CHR 0x22 # s @ [CHR 0x22]"

definition reply_A :: "bool \<Rightarrow> string" where
  "reply_A flag =
     ''{'' @ quoted ''categories'' @ '': [{'' @ quoted ''name'' @ '': '' @ quoted ''A'' @ '', ''
       @ quoted ''is_existing'' @ '': '' @ (if flag then ''true'' else ''false'') @ '', ''
       @ quoted ''paper_indices'' @ '': [1]}]}''"

definition reply_A_B :: string where
  "reply_A_B =
     ''{'' @ quoted ''categories'' @ '': [{'' @ quoted ''name'' @ '': '' @ quoted ''A'' @ '', ''
       @ quoted ''paper_indices'' @ '': [1]}, {'' @ quoted ''name'' @ '': '' @ quoted ''B'' @ '', ''
       @ quoted ''paper_indices'' @ '': [1]}]}''"

text \<open>
  What \<^verbatim>\<open>json.loads\<close> returns on the texts used in the examples: the three documents
  above, the empty object \<^verbatim>\<open>{}\<close>, and a decoding error on \<^verbatim>\<open>{} {}\<close> (two objects are
  not one JSON value). No example applies the table to any other string.
\<close>

definition sample_loads :: json_decoder where
  "sample_loads s =
     (if s = ''{}'' then Some \<lparr>categories = None\<rparr>
      else if s = reply_A True then
        Some \<lparr>categories = Some [\<lparr>entry_name = Some ''A'', entry_is_existing = Some True,
                 entry_paper_indices = Some [1], entry_summary = None\<rparr>]\<rparr>
      else if s = reply_A False then
        Some \<lparr>categories = Some [\<lparr>entry_name = Some ''A'', entry_is_existing = Some False,
                 entry_paper_indices = Some [1], entry_summary = None\<rparr>]\<rparr>
      else if s = reply_A_B then
        Some \<lparr>categories = Some
               [\<lparr>entry_name = Some ''A'', entry_is_existing = None,
                  entry_paper_indices = Some [1], entry_summary = None\<rparr>,
                \<lparr>entry_name = Some ''B'', entry_is_existing = None,
                  entry_paper_indices = Some [1], entry_summary = None\<rparr>]\<rparr>
      else None)"

text \<open>
  Two clients. The first answers batch \<open>0\<close> with \<open>reply_A True\<close> and raises on every
  later request; the second raises the same exception on every request.
\<close>

definition client_failing_second :: completion_client where
  "client_failing_second k =
     (if k = 0 then Inr (reply_A True) else Inl (BackendError ''quota exceeded''))"

definition client_failing_first :: completion_client where
  "client_failing_first k = Inl (BackendError ''quota exceeded'')"


section \<open>Properties of the batch planner\<close>

lemma py_slice_nat: "py_slice xs (int lo) (int hi) = drop lo (take hi xs)"
proof -
  have "nat (min (int lo) (int (length xs))) = min lo (length xs)"
       "nat (min (int hi) (int (length xs))) = min hi (length xs)"
    by (simp_all only: of_nat_min[symmetric] nat_int)
  moreover have "drop (min lo (length xs)) (take (min hi (length xs)) xs) = drop lo (take hi xs)"
    by (simp add: min_def)
  ultimately show ?thesis
    by (simp add: py_slice_def Let_def)
qed

lemma batch_slice_pos:
  assumes "0 < b"
  shows "batch_slice xs b (int k) = take (nat b) (drop (k * nat b) xs)"
proof -
  obtain m where m: "b = int m" using assms by (metis zero_less_imp_eq_int)
  have e1: "int k * int m = int (k * m)" by simp
  have e2: "min (int (k * m) + int m) (int (length xs)) = int (min (k * m + m) (length xs))"
    by (simp only: of_nat_add[symmetric] of_nat_min)
  have "batch_slice xs (int m) (int k) = drop (k * m) (take (min (k * m + m) (length xs)) xs)"
    unfolding batch_slice_def Let_def e1 e2 py_slice_nat ..
  also have "\<dots> = take m (drop (k * m) xs)"
    by (simp add: take_drop min_def add.commute)
  finally show ?thesis using m by simp
qed

lemma concat_slices:
  "concat (map (\<lambda>k. take m (drop (k * m) xs)) [0..<c]) = take (c * m) xs"
proof (induction c)
  case 0
  then show ?case by simp
next
  case (Suc c)
  have "take (c * m) xs @ take m (drop (c * m) xs) = take (c * m + m) xs"
    by (simp add: take_add)
  with Suc show ?case by (simp add: add.commute)
qed

lemma ceiling_as_div:
  assumes "0 < (b::int)"
  shows "\<lceil>real_of_int n / real_of_int b\<rceil> = (n + b - 1) div b"
proof -
  define z where "z = (n + b - 1) div b"
  have d: "n + b - 1 = b * z + (n + b - 1) mod b" by (simp add: z_def)
  have r: "0 \<le> (n + b - 1) mod b" "(n + b - 1) mod b < b" using assms by simp_all
  have "b * z - b < n" "n \<le> b * z" using d r by linarith+
  then have "real_of_int (b * z - b) < real_of_int n" "real_of_int n \<le> real_of_int (b * z)"
    by linarith+
  then have "real_of_int z - 1 < real_of_int n / real_of_int b"
            "real_of_int n / real_of_int b \<le> real_of_int z"
    using assms by (simp_all add: field_simps)
  then show ?thesis unfolding z_def[symmetric] by (intro ceiling_unique) simp_all
qed

lemma count_bounds:
  fixes n :: nat and b :: int and k :: nat
  assumes "0 < (b::int)"
  defines "c \<equiv> nat ((int n + b - 1) div b)"
  shows "n \<le> c * nat b" and "k < c \<Longrightarrow> k * nat b < n" and "int c = (int n + b - 1) div b"
proof -
  define z where "z = (int n + b - 1) div b"
  have d: "int n + b - 1 = b * z + (int n + b - 1) mod b" by (simp add: z_def)
  have r: "0 \<le> (int n + b - 1) mod b" "(int n + b - 1) mod b < b" using assms by simp_all
  have u: "int n \<le> b * z" and l: "b * z - b < int n" using d r by linarith+
  have z0: "0 \<le> z" unfolding z_def using assms by (simp add: pos_imp_zdiv_nonneg_iff)
  then have cz: "int c = z" by (simp add: c_def z_def)
  then show "int c = (int n + b - 1) div b" by (simp add: z_def)
  have bn: "int (nat b) = b" using assms by simp
  have "int n \<le> int (c * nat b)" using u cz bn by (simp add: mult.commute)
  then show "n \<le> c * nat b" by linarith
  show "k * nat b < n" if "k < c"
  proof -
    have "int k + 1 \<le> z" using that cz by linarith
    then have "b * (int k + 1) \<le> b * z" using assms by (simp add: mult_left_mono)
    then have "b * int k < int n" using l by (simp add: algebra_simps)
    then have "int (k * nat b) < int n" using bn by (simp add: mult.commute)
    then show ?thesis by linarith
  qed
qed

text \<open>
  Claim C4, as the code has it. For a batch size \<open>b > 0\<close> the planner yields
  \<open>\<lceil>n / b\<rceil>\<close> slices; slice \<open>k\<close> is the \<open>b\<close> records from position \<open>k * b\<close> on, no
  slice is empty, every slice but the last holds exactly \<open>b\<close> records, and the slices
  concatenated are the input. The planner raises exactly when \<open>b = 0\<close>
  (\<^verbatim>\<open>ZeroDivisionError\<close>); a negative size is not rejected.
\<close>

theorem plan_batches_partition:
  fixes ps :: "'a list"
  shows "(0 < b \<longrightarrow>
           (\<exists>bs. plan_batches ps b = Inr bs
              \<and> int (length bs) = \<lceil>real (length ps) / real_of_int b\<rceil>
              \<and> concat bs = ps
              \<and> (\<forall>k < length bs. bs ! k = take (nat b) (drop (k * nat b) ps)
                     \<and> bs ! k \<noteq> []
                     \<and> (Suc k < length bs \<longrightarrow> length (bs ! k) = nat b))))
       \<and> ((\<exists>e. plan_batches ps b = Inl e) \<longleftrightarrow> b = 0)"
proof (intro conjI impI)
  assume b: "0 < b"
  define c where "c = nat ((int (length ps) + b - 1) div b)"
  define bs where "bs = map (\<lambda>k. take (nat b) (drop (k * nat b) ps)) [0..<c]"
  note cb = count_bounds[OF b, where n = "length ps", folded c_def]
  have p: "plan_batches ps b = Inr bs"
    using b by (simp add: plan_batches_def batch_count_def batch_slice_pos bs_def c_def)
  have len: "length bs = c" by (simp add: bs_def)
  have "int (length bs) = \<lceil>real_of_int (int (length ps)) / real_of_int b\<rceil>"
    using cb(3) len by (simp only: ceiling_as_div[OF b])
  then have ceil: "int (length bs) = \<lceil>real (length ps) / real_of_int b\<rceil>" by simp
  have cat: "concat bs = ps"
    using cb(1) by (simp add: bs_def concat_slices)
  have each: "bs ! k = take (nat b) (drop (k * nat b) ps) \<and> bs ! k \<noteq> []
      \<and> (Suc k < length bs \<longrightarrow> length (bs ! k) = nat b)" if "k < length bs" for k
  proof -
    have k: "k < c" using that len by simp
    have e: "bs ! k = take (nat b) (drop (k * nat b) ps)" using k by (simp add: bs_def)
    have ne: "bs ! k \<noteq> []" using cb(2)[OF k] b by (simp add: e)
    have "length (bs ! k) = nat b" if "Suc k < length bs"
    proof -
      have "Suc k * nat b < length ps" using cb(2)[of "Suc k"] that len by simp
      then have "nat b \<le> length ps - k * nat b" by simp
      then show ?thesis by (simp add: e)
    qed
    with e ne show ?thesis by blast
  qed
  show "\<exists>bs. plan_batches ps b = Inr bs
              \<and> int (length bs) = \<lceil>real (length ps) / real_of_int b\<rceil>
              \<and> concat bs = ps
              \<and> (\<forall>k < length bs. bs ! k = take (nat b) (drop (k * nat b) ps)
                     \<and> bs ! k \<noteq> []
                     \<and> (Suc k < length bs \<longrightarrow> length (bs ! k) = nat b))"
    using p ceil cat each by blast
next
  show "(\<exists>e. plan_batches ps b = Inl e) \<longleftrightarrow> b = 0"
    by (auto simp: plan_batches_def batch_count_def)
qed

theorem plan_batches_partition_witness:
  "0 < (2::int) \<and> plan_batches [paper1, paper2, paper3] 2 = Inr [[paper1, paper2], [paper3]]"
proof -
  have "plan_batches [paper1, paper2, paper3] 2 = Inr [[paper1, paper2], [paper3]]"
    by code_simp
  then show ?thesis
    using plan_batches_partition[of 2 "[paper1, paper2, paper3]"] by simp
qed

text \<open>
  With the batch size \<open>-1\<close> and two records the count is \<open>0 div (-1) = 0\<close>: the loop
  body never runs and nothing is raised.
\<close>

theorem plan_batches_negative_size:
  "(-1::int) \<le> 0 \<and> plan_batches [paper1, paper2] (-1) = Inr []"
  by (simp add: plan_batches_def batch_count_def)

section \<open>Properties of the response parser\<close>

lemma select_papers_map_filter:
  "select_papers ps paper_indices =
     Inr (map (\<lambda>i. ps ! (nat i - 1)) (filter (\<lambda>i. 0 < i \<and> i \<le> int (length ps)) paper_indices))"
proof (induction paper_indices)
  case Nil
  show ?case by simp
next
  case (Cons idx rest)
  show ?case
  proof (cases "0 < idx \<and> idx \<le> int (length ps)")
    case True
    then have "py_getitem ps (idx - 1) = Inr (ps ! (nat idx - 1))"
      by (simp add: py_getitem_def Let_def nat_diff_distrib)
    with True Cons show ?thesis by simp
  next
    case False
    with Cons show ?thesis by auto
  qed
qed

text \<open>
  Claim C5. The comprehension never raises: an index \<open>i\<close> with \<open>0 < i \<le> m\<close> yields the
  record at position \<open>i - 1\<close> of the batch, every other index is skipped, and the
  records come in the order of their indices.
\<close>

theorem select_papers_total:
  "select_papers ps paper_indices =
     Inr (map (\<lambda>i. ps ! (nat i - 1)) (filter (\<lambda>i. 0 < i \<and> i \<le> int (length ps)) paper_indices))"
  by (rule select_papers_map_filter)

lemma dropWhile_hd_fails: "dropWhile P xs = c # rest \<Longrightarrow> \<not> P c"
  using hd_dropWhile[of P xs] by auto

lemma dropWhile_skip: "c \<notin> set pre \<Longrightarrow> dropWhile (\<lambda>x. x \<noteq> c) (pre @ c # rest) = c # rest"
  by (induction pre) auto

lemma case_body:
  "(case xs of [] \<Rightarrow> None | a # l \<Rightarrow> Some (c # a # l)) = (if xs = [] then None else Some (c # xs))"
  by (cases xs) simp_all

lemma split_at_last:
  fixes rest :: "'a list" and Q :: "'a \<Rightarrow> bool"
  defines "body \<equiv> rev (dropWhile Q (rev rest))" and "post \<equiv> rev (takeWhile Q (rev rest))"
  shows "rest = body @ post" and "\<forall>x \<in> set post. Q x"
    and "body \<noteq> [] \<Longrightarrow> \<exists>mid l. body = mid @ [l] \<and> \<not> Q l"
proof -
  have "rev rest = takeWhile Q (rev rest) @ dropWhile Q (rev rest)" by simp
  then have "rev (rev rest) = rev (takeWhile Q (rev rest) @ dropWhile Q (rev rest))" by simp
  then show "rest = body @ post" unfolding body_def post_def by (simp only: rev_rev_ident rev_append)
  show "\<forall>x \<in> set post. Q x" unfolding post_def by (auto dest: set_takeWhileD)
  show "\<exists>mid l. body = mid @ [l] \<and> \<not> Q l" if "body \<noteq> []"
  proof -
    from that obtain l r where d: "dropWhile Q (rev rest) = l # r"
      unfolding body_def by (cases "dropWhile Q (rev rest)") auto
    then have "\<not> Q l" by (rule dropWhile_hd_fails)
    moreover have "body = rev r @ [l]" unfolding body_def d by simp
    ultimately show ?thesis by blast
  qed
qed

lemma extract_json_SomeD:
  assumes a: "extract_json t = Some s"
  shows "\<exists>pre mid post. t = pre @ s @ post \<and> s = CHR ''{'' # mid @ [CHR ''}'']
        \<and> CHR ''{'' \<notin> set pre \<and> CHR ''}'' \<notin> set post"
proof -
  let ?P = "\<lambda>c. c \<noteq> CHR ''{''" and ?Q = "\<lambda>c. c \<noteq> CHR ''}''"
  from a obtain c rest where d: "dropWhile ?P t = c # rest"
    by (cases "dropWhile ?P t") (auto simp: extract_json_def)
  have c: "c = CHR ''{''" using dropWhile_hd_fails[OF d] by simp
  define body where "body = rev (dropWhile ?Q (rev rest))"
  define post where "post = rev (takeWhile ?Q (rev rest))"
  have "extract_json t = (if body = [] then None else Some (c # body))"
    unfolding extract_json_def d body_def list.case by (rule case_body)
  then have sb: "s = c # body \<and> body \<noteq> []"
    using a by (cases "body = []") simp_all
  have rest: "rest = body @ post" and p2: "\<forall>x \<in> set post. ?Q x"
    unfolding body_def post_def by (rule split_at_last)+
  obtain mid l where mid: "body = mid @ [l]" "\<not> ?Q l"
    using split_at_last(3)[of ?Q rest] sb unfolding body_def by blast
  have p1: "CHR ''{'' \<notin> set (takeWhile ?P t)" by (auto dest: set_takeWhileD)
  have "t = takeWhile ?P t @ dropWhile ?P t" by simp
  then have "t = takeWhile ?P t @ s @ post" unfolding d using sb rest by simp
  moreover have "s = CHR ''{'' # mid @ [CHR ''}'']" using sb c mid by simp
  moreover have "CHR ''}'' \<notin> set post" using p2 by blast
  ultimately show ?thesis using p1 by blast
qed

lemma extract_json_SomeI:
  assumes t: "t = pre @ s @ post" and s: "s = CHR ''{'' # mid @ [CHR ''}'']"
    and p: "CHR ''{'' \<notin> set pre" "CHR ''}'' \<notin> set post"
  shows "extract_json t = Some s"
proof -
  have 1: "dropWhile (\<lambda>c. c \<noteq> CHR ''{'') t = CHR ''{'' # (mid @ [CHR ''}''] @ post)"
    using p(1) unfolding t s by (simp add: dropWhile_skip)
  have "dropWhile (\<lambda>c. c \<noteq> CHR ''}'') (rev post @ CHR ''}'' # rev mid) = CHR ''}'' # rev mid"
    using p(2) by (simp add: dropWhile_skip)
  then have 2: "rev (dropWhile (\<lambda>c. c \<noteq> CHR ''}'') (rev (mid @ [CHR ''}''] @ post))) = mid @ [CHR ''}'']"
    by simp
  show ?thesis
    unfolding extract_json_def 1 list.case 2 s by (cases mid) simp_all
qed

lemma extract_json_None:
  "extract_json t = None \<longleftrightarrow> \<not> (\<exists>pre mid post. t = pre @ CHR ''{'' # mid @ CHR ''}'' # post)"
proof
  assume n: "extract_json t = None"
  show "\<not> (\<exists>pre mid post. t = pre @ CHR ''{'' # mid @ CHR ''}'' # post)"
  proof
    assume "\<exists>pre mid post. t = pre @ CHR ''{'' # mid @ CHR ''}'' # post"
    then obtain pre mid post where t: "t = pre @ CHR ''{'' # mid @ CHR ''}'' # post" by blast
    let ?P = "\<lambda>c. c \<noteq> CHR ''{''" and ?Q = "\<lambda>c. c \<noteq> CHR ''}''"
    have "CHR ''{'' \<in> set t" using t by simp
    then have "dropWhile ?P t \<noteq> []" by (auto simp: dropWhile_eq_Nil_conv)
    then obtain c rest where d: "dropWhile ?P t = c # rest" by (cases "dropWhile ?P t") auto
    have "\<exists>u. rest = u @ CHR ''}'' # post"
    proof (cases "CHR ''{'' \<in> set pre")
      case True
      then obtain a b where ab: "pre = a @ CHR ''{'' # b" "CHR ''{'' \<notin> set a"
        by (meson split_list_first)
      then have "dropWhile ?P t = CHR ''{'' # b @ CHR ''{'' # mid @ CHR ''}'' # post"
        unfolding t by (simp add: dropWhile_skip)
      with d show ?thesis by auto
    next
      case False
      then have "dropWhile ?P t = CHR ''{'' # mid @ CHR ''}'' # post"
        unfolding t by (simp add: dropWhile_skip)
      with d show ?thesis by auto
    qed
    then have "CHR ''}'' \<in> set (rev rest)" by auto
    then have "dropWhile ?Q (rev rest) \<noteq> []" by (auto simp: dropWhile_eq_Nil_conv)
    then have "rev (dropWhile ?Q (rev rest)) \<noteq> []" by simp
    then have "extract_json t \<noteq> None"
      unfolding extract_json_def d by (cases "rev (dropWhile ?Q (rev rest))") auto
    with n show False by simp
  qed
next
  assume "\<not> (\<exists>pre mid post. t = pre @ CHR ''{'' # mid @ CHR ''}'' # post)"
  then have "extract_json t \<noteq> Some s" for s
    using extract_json_SomeD[of t s] by fastforce
  then show "extract_json t = None" by (cases "extract_json t") auto
qed

lemma parse_entry_total:
  "parse_entry ps cat =
     Inr \<lparr>category = (case entry_name cat of None \<Rightarrow> default_category_name | Some v \<Rightarrow> v),
          papers = map (\<lambda>i. ps ! (nat i - 1))
                     (filter (\<lambda>i. 0 < i \<and> i \<le> int (length ps))
                        (case entry_paper_indices cat of None \<Rightarrow> [] | Some v \<Rightarrow> v)),
          summary = (case entry_summary cat of None \<Rightarrow> [] | Some v \<Rightarrow> v)\<rparr>"
  by (simp add: parse_entry_def Let_def select_papers_map_filter)

lemma parse_entries_total:
  "\<exists>results. parse_entries ps cats = Inr results \<and> length results = length cats
     \<and> (\<forall>k < length cats. parse_entry ps (cats ! k) = Inr (results ! k))"
proof (induction cats)
  case Nil
  show ?case by simp
next
  case (Cons cat cats)
  then obtain results where r: "parse_entries ps cats = Inr results" "length results = length cats"
    "\<forall>k < length cats. parse_entry ps (cats ! k) = Inr (results ! k)" by blast
  obtain c where c: "parse_entry ps cat = Inr c" using parse_entry_total by blast
  have "\<forall>k < length (cat # cats). parse_entry ps ((cat # cats) ! k) = Inr ((c # results) ! k)"
    using r(3) c by (auto simp: nth_Cons split: nat.splits)
  then show ?case using r c by simp
qed

lemma parse_result_cases:
  "parse_classification_result loads t ps =
     (case extract_json t of
        None \<Rightarrow> Inl (ValueError NoJsonContent)
      | Some js \<Rightarrow>
          (case loads js of
             None \<Rightarrow> Inl (ValueError JsonDecodeFailed)
           | Some d \<Rightarrow> parse_entries ps (case categories d of None \<Rightarrow> [] | Some v \<Rightarrow> v)))"
  by (simp add: parse_classification_result_def)

text \<open>
  Claim C3, as the code has it. The parser decodes the text from the first opening
  brace through the last closing brace behind it, whether or not the braces in between
  balance. It raises \<open>ValueError\<close> exactly when no closing brace follows the first
  opening brace, or when the decoder rejects that substring; otherwise it returns the
  entries of the decoded document.
\<close>

theorem parse_fails_iff_no_braces_or_undecodable:
  "(extract_json t = None \<longleftrightarrow>
      \<not> (\<exists>pre mid post. t = pre @ CHR ''{'' # mid @ CHR ''}'' # post))
   \<and> (extract_json t = Some s \<longleftrightarrow>
        (\<exists>pre mid post. t = pre @ s @ post \<and> s = CHR ''{'' # mid @ [CHR ''}'']
            \<and> CHR ''{'' \<notin> set pre \<and> CHR ''}'' \<notin> set post))
   \<and> (parse_classification_result loads t ps = Inl (ValueError NoJsonContent) \<longleftrightarrow>
        extract_json t = None)
   \<and> (parse_classification_result loads t ps = Inl (ValueError JsonDecodeFailed) \<longleftrightarrow>
        (\<exists>js. extract_json t = Some js \<and> loads js = None))
   \<and> ((\<exists>e. parse_classification_result loads t ps = Inl e) \<longleftrightarrow>
        extract_json t = None \<or> (\<exists>js. extract_json t = Some js \<and> loads js = None))
   \<and> (extract_json t = Some s \<and> loads s = Some d \<longrightarrow>
        parse_classification_result loads t ps
          = parse_entries ps (case categories d of None \<Rightarrow> [] | Some v \<Rightarrow> v))"
proof -
  have ok: "\<exists>r. parse_entries ps cats = Inr r" for cats
    using parse_entries_total[of ps cats] by blast
  have 1: "parse_classification_result loads t ps = Inl (ValueError NoJsonContent) \<longleftrightarrow>
        extract_json t = None"
    using ok unfolding parse_result_cases
    by (auto split: option.splits) (metis Inl_Inr_False)+
  have 2: "parse_classification_result loads t ps = Inl (ValueError JsonDecodeFailed) \<longleftrightarrow>
        (\<exists>js. extract_json t = Some js \<and> loads js = None)"
    using ok unfolding parse_result_cases
    by (auto split: option.splits) (metis Inl_Inr_False)+
  have 3: "(\<exists>e. parse_classification_result loads t ps = Inl e) \<longleftrightarrow>
        extract_json t = None \<or> (\<exists>js. extract_json t = Some js \<and> loads js = None)"
    using ok unfolding parse_result_cases
    by (auto split: option.splits) (metis Inl_Inr_False)+
  have 4: "extract_json t = Some s \<and> loads s = Some d \<longrightarrow>
        parse_classification_result loads t ps
          = parse_entries ps (case categories d of None \<Rightarrow> [] | Some v \<Rightarrow> v)"
    by (simp add: parse_result_cases)
  have 5: "extract_json t = Some s \<longleftrightarrow>
        (\<exists>pre mid post. t = pre @ s @ post \<and> s = CHR ''{'' # mid @ [CHR ''}'']
            \<and> CHR ''{'' \<notin> set pre \<and> CHR ''}'' \<notin> set post)"
    using extract_json_SomeD[of t s] extract_json_SomeI[of t _ s] by blast
  show ?thesis using extract_json_None[of t] 1 2 3 4 5 by blast
qed

theorem parse_fails_iff_no_braces_or_undecodable_witness:
  "extract_json (''Sure: '' @ reply_A True @ '' done'') = Some (reply_A True)
   \<and> sample_loads (reply_A True)
       = Some \<lparr>categories = Some [\<lparr>entry_name = Some ''A'', entry_is_existing = Some True,
                 entry_paper_indices = Some [1], entry_summary = None\<rparr>]\<rparr>
   \<and> parse_classification_result sample_loads (''Sure: '' @ reply_A True @ '' done'') [paper1]
       = Inr [\<lparr>category = ''A'', papers = [paper1], summary = []\<rparr>]"
proof -
  have e: "extract_json (''Sure: '' @ reply_A True @ '' done'') = Some (reply_A True)"
    by (simp add: extract_json_def reply_A_def quoted_def)
  have l: "sample_loads (reply_A True)
       = Some \<lparr>categories = Some [\<lparr>entry_name = Some ''A'', entry_is_existing = Some True,
                 entry_paper_indices = Some [1], entry_summary = None\<rparr>]\<rparr>"
    by (simp add: sample_loads_def reply_A_def quoted_def)
  have p: "parse_entries [paper1] [\<lparr>entry_name = Some ''A'', entry_is_existing = Some True,
                 entry_paper_indices = Some [1], entry_summary = None\<rparr>]
           = Inr [\<lparr>category = ''A'', papers = [paper1], summary = []\<rparr>]"
    by (simp add: parse_entry_def py_getitem_def)
  show ?thesis
    using parse_fails_iff_no_braces_or_undecodable[of "''Sure: '' @ reply_A True @ '' done''"
        "reply_A True" sample_loads "[paper1]"] e l p
    by simp
qed

text \<open>
  On the text \<^verbatim>\<open>{} {}\<close> the first balanced object is \<^verbatim>\<open>{}\<close>, which is valid JSON, but
  the parser hands the whole text to the decoder and fails.
\<close>

theorem parse_takes_greedy_match_not_first_balanced:
  "first_balanced_object ''{} {}'' = Some ''{}''
   \<and> sample_loads ''{}'' = Some \<lparr>categories = None\<rparr>
   \<and> extract_json ''{} {}'' = Some ''{} {}''
   \<and> parse_classification_result sample_loads ''{} {}'' [paper1] = Inl (ValueError JsonDecodeFailed)"
  by (simp add: extract_json_def sample_loads_def parse_classification_result_def reply_A_def
        reply_A_B_def quoted_def)

text \<open>
  Claim C9, as the code has it. The parser never fails on the entries and returns one
  result per entry, in the order of the entries. The name is the placeholder when the
  \<^verbatim>\<open>name\<close> key is absent, and the given name otherwise, the empty string included; the
  indices default to the empty list and the summary to the empty string.
\<close>

theorem parse_entries_defaults:
  "\<exists>results. parse_entries ps cats = Inr results \<and> length results = length cats
     \<and> (\<forall>k < length cats.
          category (results ! k)
            = (case entry_name (cats ! k) of None \<Rightarrow> default_category_name | Some v \<Rightarrow> v)
        \<and> papers (results ! k)
            = (case entry_paper_indices (cats ! k) of
                 None \<Rightarrow> []
               | Some idxs \<Rightarrow> map (\<lambda>i. ps ! (nat i - 1))
                                (filter (\<lambda>i. 0 < i \<and> i \<le> int (length ps)) idxs))
        \<and> summary (results ! k)
            = (case entry_summary (cats ! k) of None \<Rightarrow> [] | Some v \<Rightarrow> v))"
proof -
  obtain results where r: "parse_entries ps cats = Inr results" "length results = length cats"
    "\<forall>k < length cats. parse_entry ps (cats ! k) = Inr (results ! k)"
    using parse_entries_total by blast
  have "category (results ! k)
            = (case entry_name (cats ! k) of None \<Rightarrow> default_category_name | Some v \<Rightarrow> v)
        \<and> papers (results ! k)
            = (case entry_paper_indices (cats ! k) of
                 None \<Rightarrow> []
               | Some idxs \<Rightarrow> map (\<lambda>i. ps ! (nat i - 1))
                                (filter (\<lambda>i. 0 < i \<and> i \<le> int (length ps)) idxs))
        \<and> summary (results ! k)
            = (case entry_summary (cats ! k) of None \<Rightarrow> [] | Some v \<Rightarrow> v)"
    if "k < length cats" for k
  proof -
    have "Inr (results ! k) = parse_entry ps (cats ! k)" using r(3) that by simp
    then have "results ! k = \<lparr>category = (case entry_name (cats ! k) of None \<Rightarrow> default_category_name | Some v \<Rightarrow> v),
          papers = map (\<lambda>i. ps ! (nat i - 1))
                     (filter (\<lambda>i. 0 < i \<and> i \<le> int (length ps))
                        (case entry_paper_indices (cats ! k) of None \<Rightarrow> [] | Some v \<Rightarrow> v)),
          summary = (case entry_summary (cats ! k) of None \<Rightarrow> [] | Some v \<Rightarrow> v)\<rparr>"
      unfolding parse_entry_total by simp
    then show ?thesis by (simp split: option.splits)
  qed
  with r show ?thesis by blast
qed

theorem parse_entries_defaults_witness:
  "parse_entries [paper1, paper2]
     [\<lparr>entry_name = None, entry_is_existing = None, entry_paper_indices = None, entry_summary = None\<rparr>,
      \<lparr>entry_name = Some ''RL'', entry_is_existing = Some False,
         entry_paper_indices = Some [2, 0, 1, 3], entry_summary = Some ''about RL''\<rparr>]
   = Inr [\<lparr>category = default_category_name, papers = [], summary = []\<rparr>,
          \<lparr>category = ''RL'', papers = [paper2, paper1], summary = ''about RL''\<rparr>]"
proof -
  let ?cats = "[\<lparr>entry_name = None, entry_is_existing = None, entry_paper_indices = None, entry_summary = None\<rparr>,
      \<lparr>entry_name = Some ''RL'', entry_is_existing = Some False,
         entry_paper_indices = Some [2, 0, 1, 3], entry_summary = Some ''about RL''\<rparr>]"
  obtain results where r: "parse_entries [paper1, paper2] ?cats = Inr results"
    "length results = length ?cats"
    using parse_entries_defaults[of "[paper1, paper2]" ?cats] by blast
  moreover have "parse_entries [paper1, paper2] ?cats
    = Inr [\<lparr>category = default_category_name, papers = [], summary = []\<rparr>,
          \<lparr>category = ''RL'', papers = [paper2, paper1], summary = ''about RL''\<rparr>]"
    by (simp add: parse_entry_def py_getitem_def)
  ultimately show ?thesis by simp
qed

text \<open>An entry whose name is the empty string keeps it: \<^verbatim>\<open>dict.get\<close> finds the key.\<close>

theorem empty_name_is_kept:
  "parse_entries [paper1]
     [\<lparr>entry_name = Some [], entry_is_existing = None, entry_paper_indices = Some [1],
        entry_summary = None\<rparr>]
   = Inr [\<lparr>category = [], papers = [paper1], summary = []\<rparr>]
   \<and> default_category_name \<noteq> []"
  by (simp add: parse_entry_def py_getitem_def default_category_name_def)

section \<open>Properties of the merge engine\<close>

lemma find_category_Some:
  "find_category h merged name = Some r \<Longrightarrow> r \<in> set merged \<and> category (h ! r) = name"
  by (induction merged) (auto split: if_splits)


lemma update_papers_frame:
  fixes h :: heap
  shows "map summary (h[r := (h ! r)\<lparr>papers := p\<rparr>]) = map summary h"
    and "map category (h[r := (h ! r)\<lparr>papers := p\<rparr>]) = map category h"
proof -
  have "h[r := v] = h" if "\<not> r < length h" for v
    using that by (intro list_update_beyond) simp
  then show "map summary (h[r := (h ! r)\<lparr>papers := p\<rparr>]) = map summary h"
    by (cases "r < length h") (simp_all add: map_update list_update_same_conv)
  have "h[r := v] = h" if "\<not> r < length h" for v
    using that by (intro list_update_beyond) simp
  then show "map category (h[r := (h ! r)\<lparr>papers := p\<rparr>]) = map category h"
    by (cases "r < length h") (simp_all add: map_update list_update_same_conv)
qed

lemma merge_results_frame:
  "map summary (fst (merge_results h merged batch)) = map summary h \<and>
   map category (fst (merge_results h merged batch)) = map category h"
proof (induction batch arbitrary: h merged)
  case Nil
  show ?case by simp
next
  case (Cons b batch)
  show ?case
    by (cases "find_category h merged (category (h ! b))")
       (simp_all add: Cons update_papers_frame)
qed


lemma deref_simps:
  "deref h [] = []"
  "deref h (r # refs) = h ! r # deref h refs"
  "deref h (refs @ refs') = deref h refs @ deref h refs'"
  by (simp_all add: deref_def)

lemma deref_not_updated: "r \<notin> set refs \<Longrightarrow> deref (h[r := v]) refs = deref h refs"
  unfolding deref_def by (induction refs) auto

lemma merge_tuple_spec_found:
  assumes "distinct merged" "\<forall>x \<in> set merged. x < length h"
    and "find_category h merged name = Some r"
  shows "deref (h[r := (h ! r)\<lparr>papers := papers (h ! r) @ records\<rparr>]) merged
         = merge_tuple_spec (deref h merged) (name, records, description)"
  using assms
proof (induction merged)
  case Nil
  then show ?case by simp
next
  case (Cons x merged)
  show ?case
  proof (cases "category (h ! x) = name")
    case True
    with Cons.prems have r: "r = x" by simp
    have "x \<notin> set merged" using Cons.prems(1) by simp
    then have "deref (h[x := v]) merged = deref h merged" for v
      by (simp add: deref_not_updated)
    with True r Cons.prems(2) show ?thesis by (simp add: deref_def)
  next
    case False
    with Cons.prems have f: "find_category h merged name = Some r" by simp
    then have "r \<in> set merged" by (simp add: find_category_Some)
    with Cons.prems(1) have "r \<noteq> x" by auto
    with False Cons.IH[OF _ _ f] Cons.prems show ?thesis by (simp add: deref_def)
  qed
qed

lemma merge_tuple_spec_not_found:
  assumes "find_category h merged name = None"
  shows "merge_tuple_spec (deref h merged) (name, records, description)
         = deref h merged @ [\<lparr>category = name, papers = records, summary = description\<rparr>]"
  using assms by (induction merged) (auto simp: deref_def split: if_splits)

lemma merge_results_deref:
  assumes "distinct (merged @ batch)" "\<forall>r \<in> set (merged @ batch). r < length h"
  shows "deref (fst (merge_results h merged batch)) (snd (merge_results h merged batch))
         = merge_spec (deref h merged) (map as_tuple (deref h batch))"
  using assms
proof (induction batch arbitrary: h merged)
  case Nil
  show ?case by (simp add: merge_spec_def deref_simps)
next
  case (Cons b batch)
  let ?t = "as_tuple (h ! b)"
  show ?case
  proof (cases "find_category h merged (category (h ! b))")
    case None
    have "merge_tuple_spec (deref h merged) ?t = deref h (merged @ [b])"
      unfolding as_tuple_def using merge_tuple_spec_not_found[OF None] by (simp add: deref_simps)
    moreover have "distinct ((merged @ [b]) @ batch)" "\<forall>r \<in> set ((merged @ [b]) @ batch). r < length h"
      using Cons.prems by auto
    ultimately show ?thesis
      using None Cons.IH[of "merged @ [b]" h] by (simp add: merge_spec_def deref_simps)
  next
    case (Some r)
    let ?h1 = "h[r := (h ! r)\<lparr>papers := papers (h ! r) @ papers (h ! b)\<rparr>]"
    have rm: "r \<in> set merged" using Some by (simp add: find_category_Some)
    have d: "distinct merged" "\<forall>x \<in> set merged. x < length h" using Cons.prems by auto
    have 1: "deref ?h1 merged = merge_tuple_spec (deref h merged) ?t"
      unfolding as_tuple_def by (rule merge_tuple_spec_found[OF d Some])
    have "r \<notin> set batch" using rm Cons.prems(1) by auto
    then have 2: "deref ?h1 batch = deref h batch"
      by (simp add: deref_not_updated)
    have "distinct (merged @ batch)" "\<forall>x \<in> set (merged @ batch). x < length ?h1"
      using Cons.prems by auto
    from Cons.IH[OF this] Some 1 2 show ?thesis by (simp add: merge_spec_def deref_simps)
  qed
qed

text \<open>
  Claim C1. On a state of distinct objects, the in-place merge of the source computes
  the fold that the specification describes: tuples in order, first category of the same
  name extended, otherwise a new category appended. In particular, merging
  \<open>[(A, [p1]), (B, [p2])]\<close> and then \<open>[(A, [p3])]\<close> into the empty state leaves one
  category \<open>A\<close> with members \<open>[p1, p3]\<close> and one category \<open>B\<close> with members \<open>[p2]\<close>.
\<close>

theorem merge_results_refines_spec:
  "(distinct (existing @ batch) \<and> (\<forall>r \<in> set (existing @ batch). r < length h) \<longrightarrow>
      deref (fst (merge_results h existing batch)) (snd (merge_results h existing batch))
        = merge_spec (deref h existing) (map as_tuple (deref h batch)))
   \<and> (case merge_results
              [\<lparr>category = ''A'', papers = [p1], summary = sa\<rparr>,
               \<lparr>category = ''B'', papers = [p2], summary = sb\<rparr>,
               \<lparr>category = ''A'', papers = [p3], summary = sa'\<rparr>] [] [0, 1] of
         (h1, m1) \<Rightarrow>
           (case merge_results h1 m1 [2] of
              (h2, m2) \<Rightarrow> deref h2 m2))
       = [\<lparr>category = ''A'', papers = [p1, p3], summary = sa\<rparr>,
          \<lparr>category = ''B'', papers = [p2], summary = sb\<rparr>]"
proof (intro conjI impI)
  assume "distinct (existing @ batch) \<and> (\<forall>r \<in> set (existing @ batch). r < length h)"
  then show "deref (fst (merge_results h existing batch)) (snd (merge_results h existing batch))
        = merge_spec (deref h existing) (map as_tuple (deref h batch))"
    using merge_results_deref by blast
next
  show "(case merge_results
              [\<lparr>category = ''A'', papers = [p1], summary = sa\<rparr>,
               \<lparr>category = ''B'', papers = [p2], summary = sb\<rparr>,
               \<lparr>category = ''A'', papers = [p3], summary = sa'\<rparr>] [] [0, 1] of
         (h1, m1) \<Rightarrow>
           (case merge_results h1 m1 [2] of
              (h2, m2) \<Rightarrow> deref h2 m2))
       = [\<lparr>category = ''A'', papers = [p1, p3], summary = sa\<rparr>,
          \<lparr>category = ''B'', papers = [p2], summary = sb\<rparr>]"
    by (simp add: deref_def)
qed

theorem merge_results_refines_spec_witness:
  "distinct ([0, 1] @ [2 :: nat])
   \<and> list_all (\<lambda>r. r < length
          [\<lparr>category = ''A'', papers = [paper1], summary = ''about A''\<rparr>,
           \<lparr>category = ''B'', papers = [paper2], summary = ''about B''\<rparr>,
           \<lparr>category = ''A'', papers = [paper3], summary = ''again A''\<rparr>]) ([0, 1] @ [2 :: nat])
   \<and> merge_spec
        [\<lparr>category = ''A'', papers = [paper1], summary = ''about A''\<rparr>,
         \<lparr>category = ''B'', papers = [paper2], summary = ''about B''\<rparr>]
        [(''A'', [paper3], ''again A'')]
      = [\<lparr>category = ''A'', papers = [paper1, paper3], summary = ''about A''\<rparr>,
         \<lparr>category = ''B'', papers = [paper2], summary = ''about B''\<rparr>]
   \<and> deref (fst (merge_results
          [\<lparr>category = ''A'', papers = [paper1], summary = ''about A''\<rparr>,
           \<lparr>category = ''B'', papers = [paper2], summary = ''about B''\<rparr>,
           \<lparr>category = ''A'', papers = [paper3], summary = ''again A''\<rparr>] [0, 1] [2]))
        (snd (merge_results
          [\<lparr>category = ''A'', papers = [paper1], summary = ''about A''\<rparr>,
           \<lparr>category = ''B'', papers = [paper2], summary = ''about B''\<rparr>,
           \<lparr>category = ''A'', papers = [paper3], summary = ''again A''\<rparr>] [0, 1] [2]))
      = [\<lparr>category = ''A'', papers = [paper1, paper3], summary = ''about A''\<rparr>,
         \<lparr>category = ''B'', papers = [paper2], summary = ''about B''\<rparr>]"
  using merge_results_refines_spec[of "[0, 1]" "[2]"
          "[\<lparr>category = ''A'', papers = [paper1], summary = ''about A''\<rparr>,
            \<lparr>category = ''B'', papers = [paper2], summary = ''about B''\<rparr>,
            \<lparr>category = ''A'', papers = [paper3], summary = ''again A''\<rparr>]"]
  by (simp add: deref_def merge_spec_def as_tuple_def)

lemma merge_results_appends:
  "\<exists>new. snd (merge_results h merged batch) = merged @ new \<and> set new \<subseteq> set batch"
proof (induction batch arbitrary: h merged)
  case Nil
  show ?case by simp
next
  case (Cons b batch)
  show ?case
  proof (cases "find_category h merged (category (h ! b))")
    case None
    obtain new where "snd (merge_results h (merged @ [b]) batch) = (merged @ [b]) @ new"
      "set new \<subseteq> set batch"
      using Cons[of h "merged @ [b]"] by blast
    then have "snd (merge_results h merged (b # batch)) = merged @ (b # new)
        \<and> set (b # new) \<subseteq> set (b # batch)"
      using None by auto
    then show ?thesis by blast
  next
    case (Some r)
    let ?h1 = "h[r := (h ! r)\<lparr>papers := papers (h ! r) @ papers (h ! b)\<rparr>]"
    obtain new where "snd (merge_results ?h1 merged batch) = merged @ new" "set new \<subseteq> set batch"
      using Cons[of ?h1 merged] by blast
    then have "snd (merge_results h merged (b # batch)) = merged @ new
        \<and> set new \<subseteq> set (b # batch)"
      using Some by auto
    then show ?thesis by blast
  qed
qed

text \<open>
  Claim C6. A merge changes the \<open>summary\<close> of no object, whatever the batch carries.
  The categories of the old state stay where they are, and every category added behind
  them is the object of one of the batch tuples, so its description is the summary that
  tuple came with.
\<close>

theorem merge_results_keeps_descriptions:
  "map summary (fst (merge_results h existing batch)) = map summary h
   \<and> take (length existing) (snd (merge_results h existing batch)) = existing
   \<and> set (drop (length existing) (snd (merge_results h existing batch))) \<subseteq> set batch"
proof -
  obtain new where "snd (merge_results h existing batch) = existing @ new" "set new \<subseteq> set batch"
    using merge_results_appends by blast
  then show ?thesis using merge_results_frame[of h existing batch] by simp
qed

section \<open>Properties of the orchestrator\<close>

text \<open>
  Claim C10. For an empty record sequence \<open>classify_papers\<close> returns the empty list,
  whatever the seed and the batch size; it sends no request and leaves the heap as it
  was.
\<close>

theorem classify_papers_empty:
  "classify_papers loads client batch_size h [] existing_categories = (h, 0, Inr [])"
  by (simp add: classify_papers_def)

lemma parse_entry_ignores_flag:
  "parse_entry ps (cat\<lparr>entry_is_existing := flag\<rparr>) = parse_entry ps cat"
  by (simp add: parse_entry_def Let_def)

lemma parse_entries_ignore_flags:
  assumes "map (\<lambda>c. c\<lparr>entry_is_existing := None\<rparr>) cats1
         = map (\<lambda>c. c\<lparr>entry_is_existing := None\<rparr>) cats2"
  shows "parse_entries ps cats1 = parse_entries ps cats2"
  using assms
proof (induction cats1 arbitrary: cats2)
  case Nil
  then show ?case by simp
next
  case (Cons c cats1)
  then obtain d cats2' where c2: "cats2 = d # cats2'" by (cases cats2) auto
  with Cons.prems have e: "c\<lparr>entry_is_existing := None\<rparr> = d\<lparr>entry_is_existing := None\<rparr>"
    and r: "map (\<lambda>c. c\<lparr>entry_is_existing := None\<rparr>) cats1
         = map (\<lambda>c. c\<lparr>entry_is_existing := None\<rparr>) cats2'" by simp_all
  have "parse_entry ps c = parse_entry ps (c\<lparr>entry_is_existing := None\<rparr>)"
    by (simp only: parse_entry_ignores_flag)
  also have "\<dots> = parse_entry ps d" unfolding e by (simp only: parse_entry_ignores_flag)
  finally have "parse_entry ps c = parse_entry ps d" .
  with Cons.IH[OF r] c2 show ?case by (simp split: sum.splits)
qed

text \<open>
  Claim C8. Two completion texts whose decoded documents agree up to the values of the
  \<^verbatim>\<open>is_existing\<close> fields are parsed to the same results, and a batch step that merges
  them into the same state ends in the same heap and the same state: the flag is read
  and never used, and only the names decide the merge.
\<close>

theorem is_existing_is_ignored:
  "extract_json t1 = Some s1 \<and> loads s1 = Some d1
   \<and> extract_json t2 = Some s2 \<and> loads s2 = Some d2
   \<and> map_option (map (\<lambda>c. c\<lparr>entry_is_existing := None\<rparr>)) (categories d1)
       = map_option (map (\<lambda>c. c\<lparr>entry_is_existing := None\<rparr>)) (categories d2)
   \<longrightarrow> parse_classification_result loads t1 ps = parse_classification_result loads t2 ps
       \<and> classify_loop loads (\<lambda>k. Inr t1) h all_results batch_idx [ps]
         = classify_loop loads (\<lambda>k. Inr t2) h all_results batch_idx [ps]"
proof (intro impI)
  assume a: "extract_json t1 = Some s1 \<and> loads s1 = Some d1
   \<and> extract_json t2 = Some s2 \<and> loads s2 = Some d2
   \<and> map_option (map (\<lambda>c. c\<lparr>entry_is_existing := None\<rparr>)) (categories d1)
       = map_option (map (\<lambda>c. c\<lparr>entry_is_existing := None\<rparr>)) (categories d2)"
  let ?c1 = "case categories d1 of None \<Rightarrow> [] | Some v \<Rightarrow> v"
  let ?c2 = "case categories d2 of None \<Rightarrow> [] | Some v \<Rightarrow> v"
  from a have "map (\<lambda>c. c\<lparr>entry_is_existing := None\<rparr>) ?c1
             = map (\<lambda>c. c\<lparr>entry_is_existing := None\<rparr>) ?c2"
    by (cases "categories d1"; cases "categories d2") simp_all
  then have "parse_entries ps ?c1 = parse_entries ps ?c2" by (rule parse_entries_ignore_flags)
  with a have p: "parse_classification_result loads t1 ps = parse_classification_result loads t2 ps"
    by (simp add: parse_result_cases)
  then show "parse_classification_result loads t1 ps = parse_classification_result loads t2 ps
       \<and> classify_loop loads (\<lambda>k. Inr t1) h all_results batch_idx [ps]
         = classify_loop loads (\<lambda>k. Inr t2) h all_results batch_idx [ps]"
    by (simp split: sum.splits prod.splits)
qed

lemma extract_reply_A: "extract_json (reply_A flag) = Some (reply_A flag)"
  by (cases flag) (simp_all add: extract_json_def reply_A_def quoted_def)

lemma reply_A_differ: "reply_A True \<noteq> reply_A False"
  by (simp add: reply_A_def quoted_def)

theorem is_existing_is_ignored_witness:
  "reply_A True \<noteq> reply_A False
   \<and> parse_classification_result sample_loads (reply_A True) [paper1]
       = Inr [\<lparr>category = ''A'', papers = [paper1], summary = []\<rparr>]
   \<and> parse_classification_result sample_loads (reply_A False) [paper1]
       = Inr [\<lparr>category = ''A'', papers = [paper1], summary = []\<rparr>]
   \<and> classify_loop sample_loads (\<lambda>k. Inr (reply_A True))
         [\<lparr>category = ''A'', papers = [paper2], summary = ''about A''\<rparr>] [0] 0 [[paper1]]
       = classify_loop sample_loads (\<lambda>k. Inr (reply_A False))
         [\<lparr>category = ''A'', papers = [paper2], summary = ''about A''\<rparr>] [0] 0 [[paper1]]"
proof -
  have l1: "sample_loads (reply_A True)
       = Some \<lparr>categories = Some [\<lparr>entry_name = Some ''A'', entry_is_existing = Some True,
                 entry_paper_indices = Some [1], entry_summary = None\<rparr>]\<rparr>"
    by (simp add: sample_loads_def reply_A_def quoted_def)
  have l2: "sample_loads (reply_A False)
       = Some \<lparr>categories = Some [\<lparr>entry_name = Some ''A'', entry_is_existing = Some False,
                 entry_paper_indices = Some [1], entry_summary = None\<rparr>]\<rparr>"
    by (simp add: sample_loads_def reply_A_def quoted_def)
  have p: "parse_classification_result sample_loads (reply_A True) [paper1]
       = Inr [\<lparr>category = ''A'', papers = [paper1], summary = []\<rparr>]"
    by (simp add: parse_result_cases extract_reply_A l1 parse_entry_def py_getitem_def)
  let ?d1 = "\<lparr>categories = Some [\<lparr>entry_name = Some ''A'', entry_is_existing = Some True,
                 entry_paper_indices = Some [1], entry_summary = None\<rparr>]\<rparr>"
  let ?d2 = "\<lparr>categories = Some [\<lparr>entry_name = Some ''A'', entry_is_existing = Some False,
                 entry_paper_indices = Some [1], entry_summary = None\<rparr>]\<rparr>"
  have prem: "extract_json (reply_A True) = Some (reply_A True)
      \<and> sample_loads (reply_A True) = Some ?d1
      \<and> extract_json (reply_A False) = Some (reply_A False)
      \<and> sample_loads (reply_A False) = Some ?d2
      \<and> map_option (map (\<lambda>c. c\<lparr>entry_is_existing := None\<rparr>)) (categories ?d1)
        = map_option (map (\<lambda>c. c\<lparr>entry_is_existing := None\<rparr>)) (categories ?d2)"
    using extract_reply_A l1 l2 by simp
  have "parse_classification_result sample_loads (reply_A True) [paper1]
          = parse_classification_result sample_loads (reply_A False) [paper1]
      \<and> classify_loop sample_loads (\<lambda>k. Inr (reply_A True))
           [\<lparr>category = ''A'', papers = [paper2], summary = ''about A''\<rparr>] [0] 0 [[paper1]]
        = classify_loop sample_loads (\<lambda>k. Inr (reply_A False))
           [\<lparr>category = ''A'', papers = [paper2], summary = ''about A''\<rparr>] [0] 0 [[paper1]]"
    by (rule is_existing_is_ignored[THEN mp, OF prem])
  then show ?thesis using p reply_A_differ by metis
qed

lemma classify_loop_step:
  "i < length batches \<Longrightarrow>
   classify_loop loads client h st i (drop i batches) =
     (case batch_failure loads client batches i of
        Some e \<Rightarrow> (h, Suc i, Inl e)
      | None \<Rightarrow>
          (case client i of
             Inl e \<Rightarrow> (h, Suc i, Inl e)
           | Inr reply \<Rightarrow>
               (case parse_classification_result loads reply (batches ! i) of
                  Inl e \<Rightarrow> (h, Suc i, Inl e)
                | Inr parsed \<Rightarrow>
                    (case merge_parsed h st parsed of
                       (h', merged) \<Rightarrow>
                         classify_loop loads client h' merged (Suc i) (drop (Suc i) batches)))))"
proof -
  assume "i < length batches"
  then have d: "drop i batches = batches ! i # drop (Suc i) batches"
    by (simp add: Cons_nth_drop_Suc)
  show ?thesis
    unfolding d by (simp add: batch_failure_def split: sum.splits prod.splits)
qed

lemma classify_loop_first_failure:
  assumes "i + k < length batches"
    and "batch_failure loads client batches (i + k) = Some e"
    and "\<forall>j < k. batch_failure loads client batches (i + j) = None"
  shows "snd (classify_loop loads client h st i (drop i batches)) = (Suc (i + k), Inl e)"
  using assms
proof (induction k arbitrary: i h st)
  case 0
  then show ?case by (simp add: classify_loop_step)
next
  case (Suc k)
  have i: "i < length batches" using Suc.prems(1) by simp
  have n: "batch_failure loads client batches i = None" using Suc.prems(3) by force
  then obtain reply parsed where c: "client i = Inr reply"
    "parse_classification_result loads reply (batches ! i) = Inr parsed"
    by (auto simp: batch_failure_def split: sum.splits)
  obtain h' merged where m: "merge_parsed h st parsed = (h', merged)" by (cases "merge_parsed h st parsed")
  have "snd (classify_loop loads client h' merged (Suc i) (drop (Suc i) batches)) = (Suc (Suc i + k), Inl e)"
  proof (rule Suc.IH)
    show "Suc i + k < length batches" using Suc.prems(1) by simp
    show "batch_failure loads client batches (Suc i + k) = Some e" using Suc.prems(2) by simp
    show "\<forall>j<k. batch_failure loads client batches (Suc i + j) = None"
      using Suc.prems(3) by (metis Suc_less_eq add_Suc_right add_Suc)
  qed
  then show ?case using i n c m by (simp add: classify_loop_step)
qed

lemma classify_loop_no_failure:
  assumes "i \<le> length batches"
    and "\<forall>j. i \<le> j \<and> j < length batches \<longrightarrow> batch_failure loads client batches j = None"
  shows "\<exists>h' final. classify_loop loads client h st i (drop i batches) = (h', length batches, Inr final)"
  using assms
proof (induction "length batches - i" arbitrary: i h st)
  case 0
  then show ?case by simp
next
  case (Suc d)
  have i: "i < length batches" using Suc.hyps(2) by simp
  have n: "batch_failure loads client batches i = None" using Suc.prems(2) i by simp
  then obtain reply parsed where c: "client i = Inr reply"
    "parse_classification_result loads reply (batches ! i) = Inr parsed"
    by (auto simp: batch_failure_def split: sum.splits)
  obtain h' merged where m: "merge_parsed h st parsed = (h', merged)" by (cases "merge_parsed h st parsed")
  have "\<exists>h'' final. classify_loop loads client h' merged (Suc i) (drop (Suc i) batches)
          = (h'', length batches, Inr final)"
  proof (rule Suc.hyps(1))
    show "d = length batches - Suc i" using Suc.hyps(2) by simp
    show "Suc i \<le> length batches" using i by simp
    show "\<forall>j. Suc i \<le> j \<and> j < length batches \<longrightarrow> batch_failure loads client batches j = None"
      using Suc.prems(2) by simp
  qed
  then show ?case using i n c m by (simp add: classify_loop_step)
qed

text \<open>
  Claim C2, as the code has it. Let the planner have produced the batches of a
  non-empty record sequence. If batch \<open>k\<close> is the first whose request or parse raises,
  the run propagates exactly that exception after \<open>k + 1\<close> requests: no later batch
  is requested and no list of categories is returned. If no batch raises, the run
  returns a final state after one request per batch. If any batch raises, the run ends
  in an exception. The exception is the one the client or the parser raised; the batch
  number is printed, not attached.
\<close>

theorem classify_papers_fail_fast:
  "ps \<noteq> [] \<and> plan_batches ps batch_size = Inr batches \<longrightarrow>
     (\<forall>k e. k < length batches
          \<and> batch_failure loads client batches k = Some e
          \<and> (\<forall>j < k. batch_failure loads client batches j = None)
        \<longrightarrow> snd (classify_papers loads client batch_size h ps existing_categories) = (Suc k, Inl e))
   \<and> ((\<forall>k < length batches. batch_failure loads client batches k = None)
        \<longrightarrow> (\<exists>final. snd (classify_papers loads client batch_size h ps existing_categories)
                      = (length batches, Inr final)))
   \<and> ((\<exists>k < length batches. batch_failure loads client batches k \<noteq> None)
        \<longrightarrow> (\<exists>n e. snd (classify_papers loads client batch_size h ps existing_categories)
                      = (n, Inl e)))"
proof (intro impI)
  assume a: "ps \<noteq> [] \<and> plan_batches ps batch_size = Inr batches"
  define st where "st = (case existing_categories of None \<Rightarrow> [] | Some cs \<Rightarrow> if cs \<noteq> [] then cs else [])"
  have run: "classify_papers loads client batch_size h ps existing_categories
      = classify_loop loads client h st 0 (drop 0 batches)"
    using a by (simp add: classify_papers_def st_def)
  have first: "snd (classify_papers loads client batch_size h ps existing_categories) = (Suc k, Inl e)"
    if "k < length batches" "batch_failure loads client batches k = Some e"
      "\<forall>j < k. batch_failure loads client batches j = None" for k e
    unfolding run using classify_loop_first_failure[of 0 k batches loads client e h st] that by simp
  have none: "\<exists>final. snd (classify_papers loads client batch_size h ps existing_categories)
                      = (length batches, Inr final)"
    if nf: "\<forall>k < length batches. batch_failure loads client batches k = None"
  proof -
    obtain h' final where "classify_loop loads client h st 0 (drop 0 batches) = (h', length batches, Inr final)"
      using classify_loop_no_failure[of 0 batches loads client h st] nf by auto
    then show ?thesis unfolding run by simp
  qed
  have some: "\<exists>n e. snd (classify_papers loads client batch_size h ps existing_categories) = (n, Inl e)"
    if "\<exists>k < length batches. batch_failure loads client batches k \<noteq> None"
  proof -
    define P where "P k \<longleftrightarrow> k < length batches \<and> batch_failure loads client batches k \<noteq> None" for k
    from that have "\<exists>k. P k" unfolding P_def by blast
    then have l: "P (LEAST k. P k)" by (rule LeastI_ex)
    have m: "\<not> P j" if "j < (LEAST k. P k)" for j using that by (rule not_less_Least)
    let ?k = "LEAST k. P k"
    obtain e where e: "batch_failure loads client batches ?k = Some e" using l unfolding P_def by auto
    have "\<forall>j < ?k. batch_failure loads client batches j = None"
      using m l unfolding P_def by (metis less_trans)
    from first[OF _ e this] l show ?thesis unfolding P_def by blast
  qed
  show "(\<forall>k e. k < length batches
          \<and> batch_failure loads client batches k = Some e
          \<and> (\<forall>j < k. batch_failure loads client batches j = None)
        \<longrightarrow> snd (classify_papers loads client batch_size h ps existing_categories) = (Suc k, Inl e))
   \<and> ((\<forall>k < length batches. batch_failure loads client batches k = None)
        \<longrightarrow> (\<exists>final. snd (classify_papers loads client batch_size h ps existing_categories)
                      = (length batches, Inr final)))
   \<and> ((\<exists>k < length batches. batch_failure loads client batches k \<noteq> None)
        \<longrightarrow> (\<exists>n e. snd (classify_papers loads client batch_size h ps existing_categories)
                      = (n, Inl e)))"
    using first none some by blast
qed

lemma plan_two: "plan_batches [paper1, paper2] 1 = Inr [[paper1], [paper2]]"
  by code_simp

lemma parse_reply_A:
  "parse_classification_result sample_loads (reply_A flag) [p]
     = Inr [\<lparr>category = ''A'', papers = [p], summary = []\<rparr>]"
  by (cases flag)
     (simp_all add: parse_result_cases extract_reply_A sample_loads_def reply_A_differ
        reply_A_differ[symmetric] parse_entry_def py_getitem_def,
      simp_all add: reply_A_def quoted_def)

text \<open>
  A seed with one category \<open>A\<close>, two records, batch size \<open>1\<close>. With the first client,
  batch \<open>0\<close> is merged into the seed's category and batch \<open>1\<close> raises: the caller gets
  the client's exception as it was raised, and the category object of its seed now has
  two members. With the second client batch \<open>0\<close> raises: the caller gets the very same
  exception, so the exception does not tell which batch failed.
\<close>

theorem failure_without_index_and_seed_extended:
  "classify_papers sample_loads client_failing_second 1
       [\<lparr>category = ''A'', papers = [paper3], summary = ''about A''\<rparr>]
       [paper1, paper2] (Some [0])
     = ([\<lparr>category = ''A'', papers = [paper3, paper1], summary = ''about A''\<rparr>,
         \<lparr>category = ''A'', papers = [paper1], summary = []\<rparr>],
        2, Inl (BackendError ''quota exceeded''))
   \<and> classify_papers sample_loads client_failing_first 1
       [\<lparr>category = ''A'', papers = [paper3], summary = ''about A''\<rparr>]
       [paper1, paper2] (Some [0])
     = ([\<lparr>category = ''A'', papers = [paper3], summary = ''about A''\<rparr>],
        1, Inl (BackendError ''quota exceeded''))"
  by (simp add: classify_papers_def plan_two client_failing_second_def client_failing_first_def
        parse_reply_A merge_parsed_def alloc_def)


theorem classify_papers_fail_fast_witness:
  "[paper1, paper2] \<noteq> []
   \<and> plan_batches [paper1, paper2] 1 = Inr [[paper1], [paper2]]
   \<and> batch_failure sample_loads client_failing_second [[paper1], [paper2]] 0 = None
   \<and> batch_failure sample_loads client_failing_second [[paper1], [paper2]] 1
       = Some (BackendError ''quota exceeded'')
   \<and> snd (classify_papers sample_loads client_failing_second 1
            [\<lparr>category = ''A'', papers = [paper3], summary = ''about A''\<rparr>]
            [paper1, paper2] (Some [0]))
       = (2, Inl (BackendError ''quota exceeded''))"
proof -
  let ?bs = "[[paper1], [paper2]]"
  have f0: "batch_failure sample_loads client_failing_second ?bs 0 = None"
    by (simp add: batch_failure_def client_failing_second_def parse_reply_A)
  have f1: "batch_failure sample_loads client_failing_second ?bs 1
       = Some (BackendError ''quota exceeded'')"
    by (simp add: batch_failure_def client_failing_second_def)
  have prem: "[paper1, paper2] \<noteq> [] \<and> plan_batches [paper1, paper2] 1 = Inr ?bs"
    by (simp add: plan_two)
  have k: "(1::nat) < length ?bs
          \<and> batch_failure sample_loads client_failing_second ?bs 1
              = Some (BackendError ''quota exceeded'')
          \<and> (\<forall>j < 1. batch_failure sample_loads client_failing_second ?bs j = None)"
    using f0 f1 by simp
  from classify_papers_fail_fast[THEN mp, OF prem, THEN conjunct1, rule_format, OF k]
  have "snd (classify_papers sample_loads client_failing_second 1
            [\<lparr>category = ''A'', papers = [paper3], summary = ''about A''\<rparr>]
            [paper1, paper2] (Some [0]))
       = (Suc 1, Inl (BackendError ''quota exceeded''))" .
  then show ?thesis using f0 f1 prem by simp
qed

section \<open>Invariants of a run\<close>


















lemma merge_tuple_spec_names:
  "set (map category (merge_tuple_spec st (n, rs, d))) = insert n (set (map category st))"
  by (induction st) auto

lemma merge_tuple_spec_distinct:
  "distinct (map category st) \<Longrightarrow> distinct (map category (merge_tuple_spec st (n, rs, d)))"
proof (induction st)
  case Nil
  then show ?case by simp
next
  case (Cons c st)
  show ?case
  proof (cases "category c = n")
    case True
    then show ?thesis using Cons.prems by simp
  next
    case False
    have "category c \<notin> set (map category (merge_tuple_spec st (n, rs, d)))"
      using Cons.prems False unfolding merge_tuple_spec_names by auto
    then show ?thesis using Cons False by simp
  qed
qed




lemma merge_spec_distinct:
  "distinct (map category st) \<Longrightarrow> distinct (map category (merge_spec st ts))"
  unfolding merge_spec_def
proof (induction ts arbitrary: st)
  case Nil
  then show ?case by simp
next
  case (Cons t ts)
  obtain n rs d where t: "t = (n, rs, d)" by (cases t)
  show ?case using Cons.IH[OF merge_tuple_spec_distinct[OF Cons.prems, of n rs d]] t by simp
qed














end
